theory Spec2Isabelle
  imports Complex_Main
begin

section \<open>Numeric kernel functions of kernelmethods.numeric_kernels\<close>

text \<open>
  The module defines five kernel classes (polynomial, Gaussian, Laplacian, sigmoid and
  linear), each with a constructor, an evaluation \<^verbatim>\<open>__call__(x, y)\<close> and a
  representation \<^verbatim>\<open>__str__\<close>, and the tuple \<^verbatim>\<open>DEFINED_KERNEL_FUNCS\<close>.

  Numbers are modelled as mathematical reals: a sample is a \<^typ>\<open>real list\<close>, and
  \<^verbatim>\<open>np.exp\<close>, \<^verbatim>\<open>np.tanh\<close> and the square root are the real functions.
  Rounding, overflow and underflow of IEEE doubles are outside the model.
\<close>

subsection \<open>Exceptions and operands\<close>

text \<open>
  \<^item> \<open>ValidationError\<close>: the \<^verbatim>\<open>ValueError\<close> of \<^verbatim>\<open>check_input_arrays\<close>;
  \<^item> \<open>ShapeError\<close>: the \<^verbatim>\<open>ValueError\<close> numpy raises when two one-dimensional arrays
    can be neither aligned (\<^verbatim>\<open>dot\<close>) nor broadcast (\<^verbatim>\<open>-\<close>);
  \<^item> \<open>ZeroDivisionError\<close>: Python's float division by zero;
  \<^item> \<open>UncheckedOperand\<close>: validation was skipped and an operand is not a numeric array.
    The operators of the formula are then applied to it as it is; that path is not
    modelled further.
\<close>

datatype error = ValidationError | ShapeError | ZeroDivisionError | UncheckedOperand

text \<open>
  What a caller passes as \<^verbatim>\<open>x\<close> or \<^verbatim>\<open>y\<close>, by the dtype numpy gives it: a
  one-dimensional array of numbers, a string, a sequence of booleans, or a sequence of
  \<^verbatim>\<open>n\<close> generic objects.
\<close>

datatype pyobj =
    NumArray "real list"
  | StrLit string
  | BoolSeq "bool list"
  | ObjSeq nat

text \<open>Whether numpy gives the operand a numeric dtype.\<close>

fun is_numeric :: "pyobj \<Rightarrow> bool" where
  "is_numeric (NumArray _) = True"
| "is_numeric _ = False"

subsection \<open>The helpers imported from kernelmethods.utils\<close>

text \<open>
  Modelled from the spec: \<^verbatim>\<open>kernelmethods.utils._ensure_min_eps\<close> is imported by the
  module and is not part of the sources at hand. The spec describes it as FloorEpsilon:
  it returns \<^verbatim>\<open>max(value, machine_epsilon)\<close>. The machine epsilon is taken to be that of
  IEEE double precision, \<open>2\<^sup>-\<^sup>5\<^sup>2\<close>.
\<close>

definition machine_epsilon :: real where
  "machine_epsilon = 1 / 2 ^ 52"

definition ensure_min_eps :: "real \<Rightarrow> real" where
  "ensure_min_eps v = max v machine_epsilon"

text \<open>
  Modelled from the spec: \<^verbatim>\<open>kernelmethods.utils.check_input_arrays\<close> is imported by the
  module and is not part of the sources at hand. The spec describes it as ValidatePair:
  it confirms that both inputs are numeric (strings, boolean sequences and sequences of
  generic objects are rejected) and that their shapes are compatible, and raises a
  validation error otherwise. On success the two arrays are returned.
\<close>

fun check_input_arrays :: "pyobj \<Rightarrow> pyobj \<Rightarrow> error + (real list \<times> real list)" where
  "check_input_arrays (NumArray x) (NumArray y) =
     (if length x = length y then Inr (x, y) else Inl ValidationError)"
| "check_input_arrays _ _ = Inl ValidationError"

subsection \<open>The numpy operations of the formulas, on one-dimensional arrays\<close>

text \<open>\<^verbatim>\<open>x.dot(y.T)\<close> and \<^verbatim>\<open>np.dot(x, y)\<close>: the transpose of a one-dimensional array is
  the array itself, and arrays of different sizes are not aligned.\<close>

definition np_dot :: "real list \<Rightarrow> real list \<Rightarrow> error + real" where
  "np_dot x y =
     (if length x = length y then Inr (\<Sum>(a, b)\<leftarrow>zip x y. a * b) else Inl ShapeError)"

text \<open>\<^verbatim>\<open>x - y\<close>: elementwise, an array of size one being broadcast against the other.\<close>

definition np_sub :: "real list \<Rightarrow> real list \<Rightarrow> error + real list" where
  "np_sub x y =
     (if length x = length y then Inr (map (\<lambda>(a, b). a - b) (zip x y))
      else if length x = 1 then Inr (map (\<lambda>b. hd x - b) y)
      else if length y = 1 then Inr (map (\<lambda>a. a - hd y) x)
      else Inl ShapeError)"

text \<open>\<^verbatim>\<open>np.linalg.norm(v, ord=2)\<close> of a one-dimensional array.\<close>

definition linalg_norm :: "real list \<Rightarrow> real" where
  "linalg_norm v = sqrt (\<Sum>a\<leftarrow>v. \<bar>a\<bar> ^ 2)"

text \<open>\<^verbatim>\<open>np.sum(np.abs(v))\<close>.\<close>

definition sum_abs :: "real list \<Rightarrow> real" where
  "sum_abs v = (\<Sum>a\<leftarrow>v. \<bar>a\<bar>)"

text \<open>Python's \<^verbatim>\<open>a / b\<close> on floats.\<close>

definition py_div :: "real \<Rightarrow> real \<Rightarrow> error + real" where
  "py_div a b = (if b = 0 then Inl ZeroDivisionError else Inr (a / b))"

subsection \<open>Kernel instances and their constructors\<close>

text \<open>
  An instance holds the attributes its constructor assigns. The attribute
  \<^verbatim>\<open>name\<close> is fixed by the class.
\<close>

datatype kernel =
    Polynomial (degree: int) (b: real) (skip_input_checks: bool)
  | Gaussian (sigma: real) (gamma: real) (skip_input_checks: bool)
  | Laplacian (gamma: real) (skip_input_checks: bool)
  | Sigmoid (gamma: real) (offset: real) (skip_input_checks: bool)
  | Linear (skip_input_checks: bool)

fun name :: "kernel \<Rightarrow> string" where
  "name (Polynomial _ _ _) = ''polynomial''"
| "name (Gaussian _ _ _) = ''gaussian''"
| "name (Laplacian _ _) = ''laplacian''"
| "name (Sigmoid _ _ _) = ''sigmoid''"
| "name (Linear _) = ''linear''"

definition PolyKernel :: "int \<Rightarrow> real \<Rightarrow> bool \<Rightarrow> kernel" where
  "PolyKernel d c skip = Polynomial d c skip"

definition GaussianKernel :: "real \<Rightarrow> bool \<Rightarrow> error + kernel" where
  "GaussianKernel sg skip =
     (let s = ensure_min_eps sg in
      case py_div 1 (2 * s ^ 2) of
        Inl e \<Rightarrow> Inl e
      | Inr q \<Rightarrow> Inr (Gaussian s (ensure_min_eps q) skip))"

definition LaplacianKernel :: "real \<Rightarrow> bool \<Rightarrow> kernel" where
  "LaplacianKernel g skip = Laplacian g skip"

definition SigmoidKernel :: "real \<Rightarrow> real \<Rightarrow> bool \<Rightarrow> kernel" where
  "SigmoidKernel g off skip = Sigmoid g off skip"

definition LinearKernel :: "bool \<Rightarrow> kernel" where
  "LinearKernel skip = Linear skip"

subsection \<open>Evaluation\<close>

text \<open>
  The return expression of each \<^verbatim>\<open>__call__\<close>, on two numeric arrays. The
  exponential is the real one, which is never zero and is one only at zero;
  \<^verbatim>\<open>np.exp\<close> on doubles underflows to zero and rounds to one, so the exact range of
  a Gaussian or Laplacian value on doubles is not a property of this model.
\<close>

fun formula :: "kernel \<Rightarrow> real list \<Rightarrow> real list \<Rightarrow> error + real" where
  "formula (Polynomial d c _) x y =
     (case np_dot x y of Inl e \<Rightarrow> Inl e | Inr s \<Rightarrow> Inr ((c + s) powi d))"
| "formula (Gaussian _ g _) x y =
     (case np_sub x y of Inl e \<Rightarrow> Inl e | Inr v \<Rightarrow> Inr (exp (- g * (linalg_norm v) ^ 2)))"
| "formula (Laplacian g _) x y =
     (case np_sub x y of Inl e \<Rightarrow> Inl e | Inr v \<Rightarrow> Inr (exp (- g * sum_abs v)))"
| "formula (Sigmoid g off _) x y =
     (case np_dot x y of Inl e \<Rightarrow> Inl e | Inr s \<Rightarrow> Inr (tanh (off + g * s)))"
| "formula (Linear _) x y = np_dot x y"

text \<open>\<^verbatim>\<open>__call__\<close>: validation unless it is skipped, then the formula.\<close>

definition call :: "kernel \<Rightarrow> pyobj \<Rightarrow> pyobj \<Rightarrow> error + real" where
  "call k x y =
     (if \<not> skip_input_checks k then
        (case check_input_arrays x y of
           Inl e \<Rightarrow> Inl e
         | Inr (x', y') \<Rightarrow> formula k x' y')
      else
        (case (x, y) of
           (NumArray x', NumArray y') \<Rightarrow> formula k x' y'
         | _ \<Rightarrow> Inl UncheckedOperand))"

subsection \<open>Representation\<close>

text \<open>
  \<^verbatim>\<open>__str__\<close> fills a format string with the name and the stored parameters. How
  \<^verbatim>\<open>str.format\<close> prints a number is Python's; it is taken as the parameters
  \<open>fi\<close> (integers) and \<open>fr\<close> (floats).
\<close>

fun str :: "(int \<Rightarrow> string) \<Rightarrow> (real \<Rightarrow> string) \<Rightarrow> kernel \<Rightarrow> string" where
  "str fi fr (Polynomial d c s) =
     name (Polynomial d c s) @ ''(degree='' @ fi d @ '',b='' @ fr c @ '')''"
| "str fi fr (Gaussian sg g s) =
     name (Gaussian sg g s) @ ''(sigma='' @ fr sg @ '')''"
| "str fi fr (Laplacian g s) =
     name (Laplacian g s) @ ''(gamma='' @ fr g @ '')''"
| "str fi fr (Sigmoid g off s) =
     name (Sigmoid g off s) @ ''(gamma='' @ fr g @ '',offset='' @ fr off @ '')''"
| "str fi fr (Linear s) = name (Linear s)"

subsection \<open>The registry\<close>

text \<open>The module-level tuple, each instance built with its default parameters.\<close>

definition DEFINED_KERNEL_FUNCS :: "error + kernel list" where
  "DEFINED_KERNEL_FUNCS =
     (case GaussianKernel 2 False of
        Inl e \<Rightarrow> Inl e
      | Inr g \<Rightarrow>
          Inr [PolyKernel 2 0 False, g, LaplacianKernel 1 False, LinearKernel False,
               SigmoidKernel 1 1 False])"

subsection \<open>Gram matrices and positive semidefiniteness\<close>

text \<open>
  The Gram matrix of a kernel on the samples \<open>xs\<close>: the entry \<open>(i, j)\<close> is the evaluation on
  the \<open>i\<close>-th and the \<open>j\<close>-th sample. A matrix of size \<open>n\<close> is a function of two indices
  below \<open>n\<close>.
\<close>

definition gram :: "kernel \<Rightarrow> real list list \<Rightarrow> nat \<Rightarrow> nat \<Rightarrow> error + real" where
  "gram k xs i j = call k (NumArray (xs ! i)) (NumArray (xs ! j))"

text \<open>The quadratic form \<open>c\<^sup>T G c\<close> of a matrix.\<close>

definition quad_form :: "nat \<Rightarrow> (nat \<Rightarrow> nat \<Rightarrow> real) \<Rightarrow> (nat \<Rightarrow> real) \<Rightarrow> real" where
  "quad_form n G c = (\<Sum>i<n. \<Sum>j<n. c i * c j * G i j)"

text \<open>A matrix is positive semidefinite when it is symmetric and its quadratic form is
  nowhere negative.\<close>

definition positive_semidefinite :: "nat \<Rightarrow> (nat \<Rightarrow> nat \<Rightarrow> real) \<Rightarrow> bool" where
  "positive_semidefinite n G \<longleftrightarrow>
     (\<forall>i<n. \<forall>j<n. G i j = G j i) \<and> (\<forall>c. 0 \<le> quad_form n G c)"

text \<open>\<open>l\<close> is an eigenvalue of the matrix: \<open>G v = l v\<close> for a vector \<open>v\<close> that is not zero.
  The eigenvalues of a real symmetric matrix are all of this kind.\<close>

definition eigenvalue :: "nat \<Rightarrow> (nat \<Rightarrow> nat \<Rightarrow> real) \<Rightarrow> real \<Rightarrow> bool" where
  "eigenvalue n G l \<longleftrightarrow>
     (\<exists>v. (\<exists>i<n. v i \<noteq> 0) \<and> (\<forall>i<n. (\<Sum>j<n. G i j * v j) = l * v i))"

text \<open>
  The instances for which positive semidefiniteness is promised: the linear kernel, the
  polynomial kernel with a degree of at least one and an intercept that is not negative,
  the Gaussian kernel built from a positive bandwidth, and the Laplacian kernel with a
  positive scale.
\<close>

definition psd_guaranteed :: "kernel \<Rightarrow> bool" where
  "psd_guaranteed k \<longleftrightarrow>
     (\<exists>skip. k = LinearKernel skip) \<or>
     (\<exists>d c skip. 1 \<le> d \<and> 0 \<le> c \<and> k = PolyKernel d c skip) \<or>
     (\<exists>sg skip. 0 < sg \<and> GaussianKernel sg skip = Inr k) \<or>
     (\<exists>g skip. 0 < g \<and> k = LaplacianKernel g skip)"

text \<open>
  A device of the proofs: the matrix of inner products of finitely many feature vectors,
  and the matrices that have such features on an index set.
\<close>

definition gram_of :: "(nat \<Rightarrow> real) list \<Rightarrow> nat \<Rightarrow> nat \<Rightarrow> real" where
  "gram_of fs i j = (\<Sum>f\<leftarrow>fs. f i * f j)"

definition has_features :: "nat set \<Rightarrow> (nat \<Rightarrow> nat \<Rightarrow> real) \<Rightarrow> bool" where
  "has_features S G \<longleftrightarrow> (\<exists>fs. \<forall>i\<in>S. \<forall>j\<in>S. G i j = gram_of fs i j)"

section \<open>Basic facts\<close>

lemma machine_epsilon_pos: "0 < machine_epsilon"
  by (simp add: machine_epsilon_def)

lemma ensure_min_eps_ge: "machine_epsilon \<le> ensure_min_eps v"
  by (simp add: ensure_min_eps_def)

lemma ensure_min_eps_pos: "0 < ensure_min_eps v"
  using machine_epsilon_pos ensure_min_eps_ge [of v] by linarith

lemma GaussianKernel_eq:
  "GaussianKernel sg skip =
     Inr (Gaussian (ensure_min_eps sg)
            (ensure_min_eps (1 / (2 * (ensure_min_eps sg) ^ 2))) skip)"
  using ensure_min_eps_pos [of sg]
  by (simp add: GaussianKernel_def py_div_def Let_def)

section \<open>Evaluation on numeric arrays of equal length\<close>

lemma dot_sum_commute:
  "length x = length y \<Longrightarrow>
   (\<Sum>(a, b)\<leftarrow>zip x y. a * b) = (\<Sum>(a, b)\<leftarrow>zip y x. a * (b::real))"
  by (induction x y rule: list_induct2) (simp_all add: mult.commute)

lemma np_dot_commute: "np_dot x y = np_dot y x"
  by (auto simp: np_dot_def dot_sum_commute)

lemma np_dot_Inr: "length x = length y \<Longrightarrow> \<exists>s. np_dot x y = Inr s"
  by (simp add: np_dot_def)

lemma np_sub_eq:
  "length x = length y \<Longrightarrow> np_sub x y = Inr (map (\<lambda>(a, b). a - b) (zip x y))"
  by (simp add: np_sub_def)

lemma linalg_norm_sq: "(linalg_norm v) ^ 2 = (\<Sum>a\<leftarrow>v. a ^ 2)"
proof -
  have "0 \<le> (\<Sum>a\<leftarrow>v. \<bar>a\<bar> ^ 2)"
    by (rule sum_list_nonneg) auto
  then show ?thesis
    by (simp add: linalg_norm_def)
qed

lemma norm_sub_sq:
  "(linalg_norm (map (\<lambda>(a, b). a - b) (zip x y))) ^ 2 = (\<Sum>(a, b)\<leftarrow>zip x y. (a - b) ^ 2)"
  by (simp add: linalg_norm_sq comp_def split_def)

lemma sq_dist_commute:
  "length x = length y \<Longrightarrow>
   (\<Sum>(a, b)\<leftarrow>zip x y. (a - b) ^ 2) = (\<Sum>(a, b)\<leftarrow>zip y x. (a - b :: real) ^ 2)"
  by (induction x y rule: list_induct2) (simp_all add: power2_commute)

lemma sum_abs_sub:
  "sum_abs (map (\<lambda>(a, b). a - b) (zip x y)) = (\<Sum>(a, b)\<leftarrow>zip x y. \<bar>a - b\<bar>)"
  by (simp add: sum_abs_def comp_def split_def)

lemma abs_dist_commute:
  "length x = length y \<Longrightarrow>
   (\<Sum>(a, b)\<leftarrow>zip x y. \<bar>a - b\<bar>) = (\<Sum>(a, b)\<leftarrow>zip y x. \<bar>a - b :: real\<bar>)"
  by (induction x y rule: list_induct2) (simp_all add: abs_minus_commute)

lemma call_numeric:
  "length x = length y \<Longrightarrow> call k (NumArray x) (NumArray y) = formula k x y"
  by (simp add: call_def)

lemma formula_commute: "length x = length y \<Longrightarrow> formula k x y = formula k y x"
  by (cases k)
     (simp_all add: np_dot_commute [of x y] np_sub_eq norm_sub_sq sum_abs_sub
        sq_dist_commute [of x y] abs_dist_commute [of x y])

lemma formula_Inr: "length x = length y \<Longrightarrow> \<exists>v. formula k x y = Inr v"
  by (cases k) (simp_all add: np_dot_def np_sub_eq)

section \<open>Symmetry\<close>

text \<open>
  C2. For every kernel instance, whatever its variant and its parameters (the flag
  \<^verbatim>\<open>skip_input_checks\<close> included), and every two real vectors of the same length,
  the evaluation on \<open>(x, y)\<close> returns a value, and the evaluation on \<open>(y, x)\<close> returns
  the same value.
\<close>

theorem call_symmetric:
  "length x = length y \<Longrightarrow>
   \<exists>v. call k (NumArray x) (NumArray y) = Inr v \<and> call k (NumArray y) (NumArray x) = Inr v"
  using formula_Inr [of x y k] formula_commute [of x y k]
  by (auto simp: call_numeric)

theorem call_symmetric_witness:
  "length [1, 2 :: real] = length [3, 4 :: real] \<and>
   (\<exists>v. call (SigmoidKernel 1 1 False) (NumArray [1, 2]) (NumArray [3, 4]) = Inr v \<and>
        call (SigmoidKernel 1 1 False) (NumArray [3, 4]) (NumArray [1, 2]) = Inr v)"
  using call_symmetric [of "[1, 2]" "[3, 4]" "SigmoidKernel 1 1 False"] by simp

section \<open>The polynomial kernel of degree one and intercept zero\<close>

text \<open>
  C5. On two real vectors of the same length, the polynomial kernel built with
  \<^verbatim>\<open>degree=1\<close> and \<^verbatim>\<open>b=0\<close> and the linear kernel return the same value.
\<close>

theorem poly_degree_one_is_linear:
  "length x = length y \<Longrightarrow>
   \<exists>v. call (PolyKernel 1 0 s1) (NumArray x) (NumArray y) = Inr v \<and>
       call (LinearKernel s2) (NumArray x) (NumArray y) = Inr v"
  by (simp add: call_numeric PolyKernel_def LinearKernel_def np_dot_def)

theorem poly_degree_one_is_linear_witness:
  "length [1, 2 :: real] = length [3, 4 :: real] \<and>
   (\<exists>v. call (PolyKernel 1 0 False) (NumArray [1, 2]) (NumArray [3, 4]) = Inr v \<and>
        call (LinearKernel False) (NumArray [1, 2]) (NumArray [3, 4]) = Inr v)"
  using poly_degree_one_is_linear [of "[1, 2]" "[3, 4]" False False] by simp

section \<open>The Gaussian kernel\<close>

lemma formula_Gaussian:
  "length x = length y \<Longrightarrow>
   formula (Gaussian s g skip) x y = Inr (exp (- g * (\<Sum>(a, b)\<leftarrow>zip x y. (a - b) ^ 2)))"
  by (simp add: np_sub_eq norm_sub_sq)

lemma machine_epsilon_le_half: "machine_epsilon \<le> 1 / 2"
  by (simp add: machine_epsilon_def)

lemma inverse_square_dominates:
  fixes e :: real
  assumes "0 < e" "e \<le> 1 / 2"
  shows "e \<le> 1 / (2 * e ^ 2)"
proof -
  have "e ^ 2 \<le> (1 / 2) ^ 2"
    using assms by (intro power_mono) auto
  then have "2 * e ^ 2 \<le> 1" by (simp add: power2_eq_square)
  moreover have "0 < 2 * e ^ 2" using assms(1) by simp
  ultimately have "1 \<le> 1 / (2 * e ^ 2)" by simp
  then show ?thesis using assms(2) by linarith
qed

text \<open>
  C4. Constructing the Gaussian kernel with \<^verbatim>\<open>sigma = 0\<close> raises no error: the
  stored bandwidth is the machine epsilon, the derived scale \<open>1 / (2 * sigma\<^sup>2)\<close> of the
  floored bandwidth is strictly positive, and the evaluation on every two real vectors
  of the same length returns a value.
\<close>

theorem gaussian_zero_sigma_safe:
  "\<exists>k. GaussianKernel 0 skip = Inr k \<and>
       sigma k = machine_epsilon \<and> gamma k = 1 / (2 * machine_epsilon ^ 2) \<and> 0 < gamma k \<and>
       (\<forall>x y. length x = length y \<longrightarrow> (\<exists>v. call k (NumArray x) (NumArray y) = Inr v))"
proof -
  have s: "ensure_min_eps 0 = machine_epsilon"
    using machine_epsilon_pos by (simp add: ensure_min_eps_def)
  have g: "ensure_min_eps (1 / (2 * machine_epsilon ^ 2)) = 1 / (2 * machine_epsilon ^ 2)"
    using inverse_square_dominates [OF machine_epsilon_pos machine_epsilon_le_half]
    by (simp add: ensure_min_eps_def)
  have p: "0 < 1 / (2 * machine_epsilon ^ 2)"
    using machine_epsilon_pos by simp
  let ?k = "Gaussian machine_epsilon (1 / (2 * machine_epsilon ^ 2)) skip"
  have "\<exists>v. call ?k (NumArray x) (NumArray y) = Inr v" if "length x = length y" for x y
    using call_numeric [OF that, of ?k] formula_Inr [OF that, of ?k] by simp
  then show ?thesis
    using p by (simp add: GaussianKernel_eq s g)
qed

theorem gaussian_zero_sigma_safe_witness:
  "\<exists>k. GaussianKernel 0 False = Inr k \<and> 0 < gamma k \<and>
       (\<exists>v. call k (NumArray [1, 0]) (NumArray [0, 1]) = Inr v)"
proof -
  obtain k where k: "GaussianKernel 0 False = Inr k" "0 < gamma k"
    and r: "\<And>x y. length x = length y \<Longrightarrow> (\<exists>v. call k (NumArray x) (NumArray y) = Inr v)"
    using gaussian_zero_sigma_safe [of False] by blast
  have "\<exists>v. call k (NumArray [1, 0]) (NumArray [0, 1]) = Inr v"
    using r [of "[1, 0]" "[0, 1]"] by simp
  then show ?thesis using k by blast
qed

text \<open>
  C10. The representation of a Gaussian kernel shows the stored bandwidth: the machine
  epsilon when the configured \<^verbatim>\<open>sigma\<close> is below it, the configured value otherwise.
\<close>

theorem gaussian_str_reports_floored_sigma:
  "\<exists>k. GaussianKernel sg skip = Inr k \<and>
       str fi fr k =
         ''gaussian(sigma='' @ fr (if sg < machine_epsilon then machine_epsilon else sg) @ '')''"
  by (simp add: GaussianKernel_eq ensure_min_eps_def max_def)

theorem gaussian_str_reports_floored_sigma_witness:
  "(\<exists>k. GaussianKernel 0 False = Inr k \<and>
        str (\<lambda>i. ''int'') (\<lambda>r. if r = machine_epsilon then ''eps'' else ''other'') k
          = ''gaussian(sigma=eps)'') \<and>
   (\<exists>k. GaussianKernel 2 False = Inr k \<and>
        str (\<lambda>i. ''int'') (\<lambda>r. if r = 2 then ''2.0'' else ''other'') k
          = ''gaussian(sigma=2.0)'')"
  using gaussian_str_reports_floored_sigma [of 0 False "\<lambda>i. ''int''"
      "\<lambda>r. if r = machine_epsilon then ''eps'' else ''other''"]
    gaussian_str_reports_floored_sigma [of 2 False "\<lambda>i. ''int''"
      "\<lambda>r. if r = 2 then ''2.0'' else ''other''"]
  by (simp add: machine_epsilon_def)

section \<open>Which scale parameters are floored\<close>

text \<open>
  C3, as stated, fails on the Laplacian kernel: its constructor stores \<^verbatim>\<open>gamma\<close> as it
  is passed, so a zero scale stays zero.
\<close>

theorem laplacian_zero_gamma_not_floored:
  "\<not> 0 < gamma (LaplacianKernel 0 False)"
  by (simp add: LaplacianKernel_def)

text \<open>
  C3, amended. The Gaussian constructor floors the bandwidth \<^verbatim>\<open>sigma\<close> and the scale
  derived from it to the machine epsilon, so both stored values are strictly positive
  for every configured \<^verbatim>\<open>sigma\<close>. The Laplacian and the sigmoid constructors store
  their scale \<^verbatim>\<open>gamma\<close> unchanged.
\<close>

theorem stored_scale_parameters:
  "(\<exists>k. GaussianKernel sg skip = Inr k \<and>
        sigma k = max sg machine_epsilon \<and>
        gamma k = max (1 / (2 * (sigma k) ^ 2)) machine_epsilon \<and>
        0 < sigma k \<and> 0 < gamma k) \<and>
   gamma (LaplacianKernel g skip) = g \<and>
   gamma (SigmoidKernel g off skip) = g"
  using ensure_min_eps_pos
  by (simp add: GaussianKernel_eq LaplacianKernel_def SigmoidKernel_def
      ensure_min_eps_def [symmetric])

section \<open>Rejection of non-numeric input\<close>

text \<open>
  C6. For every kernel instance that does not skip the input checks, a call in which an
  operand is not numeric (a string, a sequence of booleans, a sequence of generic
  objects) raises the validation error. The error is that of the validation itself, which
  runs before the formula, and no value is returned.
\<close>

theorem non_numeric_rejected:
  "\<not> skip_input_checks k \<Longrightarrow> \<not> is_numeric x \<or> \<not> is_numeric y \<Longrightarrow>
   check_input_arrays x y = Inl ValidationError \<and> call k x y = Inl ValidationError"
  by (cases x; cases y) (simp_all add: call_def)

theorem non_numeric_rejected_witness:
  "\<not> skip_input_checks (LinearKernel False) \<and>
   \<not> is_numeric (StrLit ''string'') \<and>
   \<not> is_numeric (BoolSeq [True, False, True]) \<and>
   \<not> is_numeric (ObjSeq 2) \<and>
   call (LinearKernel False) (StrLit ''string'') (StrLit ''string'') = Inl ValidationError \<and>
   call (LinearKernel False) (BoolSeq [True, False, True]) (BoolSeq [True, False, True])
     = Inl ValidationError \<and>
   call (LinearKernel False) (ObjSeq 2) (ObjSeq 2) = Inl ValidationError"
  using non_numeric_rejected [of "LinearKernel False" "StrLit ''string''" "StrLit ''string''"]
    non_numeric_rejected [of "LinearKernel False" "BoolSeq [True, False, True]"
      "BoolSeq [True, False, True]"]
    non_numeric_rejected [of "LinearKernel False" "ObjSeq 2" "ObjSeq 2"]
  by (simp add: LinearKernel_def)

section \<open>Concrete scenarios\<close>

lemma exp_minus_one_bounds: "36787 / 100000 < exp (- 1 :: real) \<and> exp (- 1 :: real) < 36789 / 100000"
proof -
  obtain t :: real where t: "\<bar>t\<bar> \<le> \<bar>- 1 :: real\<bar>"
    and e: "exp (- 1 :: real) = (\<Sum>m<10. ((- 1) ^ m) / fact m) + (exp t / fact 10) * (- 1) ^ 10"
    using Maclaurin_exp_le [of "- 1" 10] by blast
  have "exp t \<le> exp 1" using t by simp
  then have up: "exp t \<le> 3" using exp_le by linarith
  have lo: "0 \<le> exp t" by simp
  have s: "(\<Sum>m<10. ((- 1 :: real) ^ m) / fact m) = 16687 / 45360"
    by (simp add: lessThan_Suc eval_nat_numeral fact_reduce)
  have f: "fact 10 = (3628800 :: real)"
    by (simp add: eval_nat_numeral fact_reduce)
  have "0 \<le> exp t / 3628800" by simp
  moreover have "exp t / 3628800 \<le> 3 / 3628800"
    using up by (simp add: divide_right_mono)
  moreover have "exp (- 1 :: real) = 16687 / 45360 + exp t / 3628800"
    unfolding e s f by simp
  ultimately show ?thesis by linarith
qed


lemma exp_minus_two_bounds: "13525 / 100000 < exp (- 2 :: real) \<and> exp (- 2 :: real) < 13535 / 100000"
proof -
  let ?a = "36787 / 100000 :: real" and ?b = "36789 / 100000 :: real"
  have e: "exp (- 2 :: real) = exp (- 1) * exp (- 1)"
    by (simp flip: exp_add)
  have lo: "?a < exp (- 1 :: real)" and up: "exp (- 1 :: real) < ?b"
    using exp_minus_one_bounds by simp_all
  have "?a * ?a < exp (- 1 :: real) * exp (- 1)"
    using lo by (intro mult_strict_mono) auto
  moreover have "exp (- 1 :: real) * exp (- 1) < ?b * ?b"
    using up by (intro mult_strict_mono) auto
  ultimately show ?thesis unfolding e by simp
qed

text \<open>
  C7. On \<open>x = [1, 0]\<close> and \<open>y = [0, 1]\<close> the linear kernel returns \<open>0\<close>, the polynomial
  kernel of degree 2 and intercept 1 returns \<open>1\<close>, the Gaussian kernel of bandwidth 1 returns
  \<open>exp (-1)\<close>, which is 0.3679 to four decimal places, and the Laplacian kernel of scale 1
  returns \<open>exp (-2)\<close>, which is 0.1353 to four decimal places.
\<close>

theorem concrete_scenarios:
  "call (LinearKernel False) (NumArray [1, 0]) (NumArray [0, 1]) = Inr 0 \<and>
   call (PolyKernel 2 1 False) (NumArray [1, 0]) (NumArray [0, 1]) = Inr 1 \<and>
   (\<exists>k. GaussianKernel 1 False = Inr k \<and>
        call k (NumArray [1, 0]) (NumArray [0, 1]) = Inr (exp (- 1))) \<and>
   call (LaplacianKernel 1 False) (NumArray [1, 0]) (NumArray [0, 1]) = Inr (exp (- 2)) \<and>
   \<bar>exp (- 1) - 3679 / 10000\<bar> < (5 / 100000 :: real) \<and>
   \<bar>exp (- 2) - 1353 / 10000\<bar> < (5 / 100000 :: real)"
proof -
  have lin: "call (LinearKernel False) (NumArray [1, 0]) (NumArray [0, 1]) = Inr 0"
    by (simp add: call_def LinearKernel_def np_dot_def)
  have pol: "call (PolyKernel 2 1 False) (NumArray [1, 0]) (NumArray [0, 1]) = Inr 1"
    by (simp add: call_def PolyKernel_def np_dot_def)
  have one: "ensure_min_eps 1 = 1" and half: "ensure_min_eps (1 / 2) = 1 / 2"
    by (simp_all add: ensure_min_eps_def machine_epsilon_def)
  have gau: "\<exists>k. GaussianKernel 1 False = Inr k \<and>
        call k (NumArray [1, 0]) (NumArray [0, 1]) = Inr (exp (- 1))"
    by (simp add: GaussianKernel_eq one half call_def np_sub_def linalg_norm_sq)
  have lap: "call (LaplacianKernel 1 False) (NumArray [1, 0]) (NumArray [0, 1]) = Inr (exp (- 2))"
    by (simp add: call_def LaplacianKernel_def np_sub_def sum_abs_def)
  have a1: "\<bar>exp (- 1) - 3679 / 10000\<bar> < (5 / 100000 :: real)"
    using exp_minus_one_bounds by linarith
  have a2: "\<bar>exp (- 2) - 1353 / 10000\<bar> < (5 / 100000 :: real)"
    using exp_minus_two_bounds by linarith
  show ?thesis using lin pol gau lap a1 a2 by blast
qed

section \<open>The registry of kernels\<close>

text \<open>
  C8. The registry is a fixed sequence of five instances, one of each variant, in the order
  polynomial, Gaussian, Laplacian, linear, sigmoid, each built by its constructor with the
  default parameters. It is a constant of the module: its construction raises no error and
  nothing in the module assigns to it afterwards.
\<close>

theorem registry_contents:
  "\<exists>ks. DEFINED_KERNEL_FUNCS = Inr ks \<and>
        ks = [Polynomial 2 0 False, Gaussian 2 (1 / 8) False, Laplacian 1 False, Linear False,
              Sigmoid 1 1 False] \<and>
        map name ks = [''polynomial'', ''gaussian'', ''laplacian'', ''linear'', ''sigmoid''] \<and>
        distinct (map name ks)"
  by (simp add: DEFINED_KERNEL_FUNCS_def GaussianKernel_eq PolyKernel_def LaplacianKernel_def
      LinearKernel_def SigmoidKernel_def ensure_min_eps_def machine_epsilon_def)

section \<open>Positive semidefinite Gram matrices\<close>

subsection \<open>Matrices of inner products of feature vectors\<close>

lemma gram_of_Nil [simp]: "gram_of [] i j = 0"
  by (simp add: gram_of_def)

lemma gram_of_Cons [simp]: "gram_of (f # fs) i j = f i * f j + gram_of fs i j"
  by (simp add: gram_of_def)

lemma gram_of_append [simp]: "gram_of (fs @ gs) i j = gram_of fs i j + gram_of gs i j"
  by (simp add: gram_of_def)

lemma quad_form_cong:
  "(\<And>i j. i < n \<Longrightarrow> j < n \<Longrightarrow> G i j = H i j) \<Longrightarrow> quad_form n G c = quad_form n H c"
  by (simp add: quad_form_def)

lemma quad_form_gram_of:
  "quad_form n (gram_of fs) c = (\<Sum>f\<leftarrow>fs. (\<Sum>i<n. c i * f i) ^ 2)"
proof (induction fs)
  case Nil
  then show ?case by (simp add: quad_form_def)
next
  case (Cons f fs)
  have a: "quad_form n (gram_of (f # fs)) c =
        (\<Sum>i<n. \<Sum>j<n. (c i * f i) * (c j * f j)) + quad_form n (gram_of fs) c"
    by (simp add: quad_form_def algebra_simps sum.distrib)
  have b: "(\<Sum>i<n. \<Sum>j<n. (c i * f i) * (c j * f j)) = (\<Sum>i<n. c i * f i) ^ 2"
    by (simp add: power2_eq_square sum_product)
  show ?case unfolding a b Cons.IH by simp
qed

lemma quad_form_gram_of_nonneg: "0 \<le> quad_form n (gram_of fs) c"
  unfolding quad_form_gram_of by (rule sum_list_nonneg) auto

lemma has_features_nonneg:
  assumes "has_features {..<n} G"
  shows "0 \<le> quad_form n G c"
proof -
  obtain fs where fs: "\<And>i j. i < n \<Longrightarrow> j < n \<Longrightarrow> G i j = gram_of fs i j"
    using assms unfolding has_features_def by auto
  have "quad_form n G c = quad_form n (gram_of fs) c"
    by (rule quad_form_cong) (rule fs)
  then show ?thesis by (simp add: quad_form_gram_of_nonneg)
qed

subsection \<open>Matrices with features are closed under sums and products\<close>

lemma has_features_const:
  assumes "0 \<le> a"
  shows "has_features S (\<lambda>i j. a)"
proof -
  have "a = gram_of [\<lambda>i. sqrt a] i j" for i j :: nat
    using assms by simp
  then show ?thesis unfolding has_features_def by blast
qed

lemma has_features_add:
  assumes "has_features S G" "has_features S H"
  shows "has_features S (\<lambda>i j. G i j + H i j)"
proof -
  obtain fs where fs: "\<forall>i\<in>S. \<forall>j\<in>S. G i j = gram_of fs i j"
    using assms(1) unfolding has_features_def by auto
  obtain gs where gs: "\<forall>i\<in>S. \<forall>j\<in>S. H i j = gram_of gs i j"
    using assms(2) unfolding has_features_def by auto
  have "\<forall>i\<in>S. \<forall>j\<in>S. G i j + H i j = gram_of (fs @ gs) i j"
    using fs gs by simp
  then show ?thesis unfolding has_features_def by blast
qed

lemma gram_of_scaled:
  "gram_of (map (\<lambda>g i. f i * g i) gs) i j = f i * f j * gram_of gs i j"
  by (induction gs) (simp_all add: algebra_simps)

lemma gram_of_product:
  "gram_of (concat (map (\<lambda>f. map (\<lambda>g i. f i * g i) gs) fs)) i j
     = gram_of fs i j * gram_of gs i j"
  by (induction fs) (simp_all add: gram_of_scaled algebra_simps)

lemma has_features_mult:
  assumes "has_features S G" "has_features S H"
  shows "has_features S (\<lambda>i j. G i j * H i j)"
proof -
  obtain fs where fs: "\<forall>i\<in>S. \<forall>j\<in>S. G i j = gram_of fs i j"
    using assms(1) unfolding has_features_def by auto
  obtain gs where gs: "\<forall>i\<in>S. \<forall>j\<in>S. H i j = gram_of gs i j"
    using assms(2) unfolding has_features_def by auto
  have "\<forall>i\<in>S. \<forall>j\<in>S.
          G i j * H i j = gram_of (concat (map (\<lambda>f. map (\<lambda>g i. f i * g i) gs) fs)) i j"
    using fs gs by (simp add: gram_of_product)
  then show ?thesis unfolding has_features_def by blast
qed

lemma has_features_rank_one: "has_features S (\<lambda>i j. u i * u j)"
proof -
  have "u i * u j = gram_of [u] i j" for i j by simp
  then show ?thesis unfolding has_features_def by blast
qed

lemma has_features_power:
  assumes "has_features S G"
  shows "has_features S (\<lambda>i j. G i j ^ m)"
proof (induction m)
  case 0
  then show ?case using has_features_const [of 1 S] by simp
next
  case (Suc m)
  then show ?case using has_features_mult [OF assms Suc] by simp
qed

lemma has_features_prod_list:
  assumes "\<And>k. k \<in> set ks \<Longrightarrow> has_features S (F k)"
  shows "has_features S (\<lambda>i j. \<Prod>k\<leftarrow>ks. F k i j)"
  using assms
proof (induction ks)
  case Nil
  then show ?case using has_features_const [of 1 S] by simp
next
  case (Cons k ks)
  have "has_features S (F k)" using Cons.prems by simp
  moreover have "has_features S (\<lambda>i j. \<Prod>k\<leftarrow>ks. F k i j)"
    using Cons by simp
  ultimately show ?case using has_features_mult by fastforce
qed

lemma has_features_sum_list:
  assumes "\<And>k. k \<in> set ks \<Longrightarrow> has_features S (F k)"
  shows "has_features S (\<lambda>i j. \<Sum>k\<leftarrow>ks. F k i j)"
  using assms
proof (induction ks)
  case Nil
  then show ?case using has_features_const [of 0 S] by simp
next
  case (Cons k ks)
  have "has_features S (F k)" using Cons.prems by simp
  moreover have "has_features S (\<lambda>i j. \<Sum>k\<leftarrow>ks. F k i j)"
    using Cons by simp
  ultimately show ?case using has_features_add by fastforce
qed

subsection \<open>The inner product and its powers\<close>

lemma zip_sum_nth:
  fixes h :: "real \<Rightarrow> real \<Rightarrow> real"
  assumes "length x = d" "length y = d"
  shows "(\<Sum>(a, b)\<leftarrow>zip x y. h a b) = (\<Sum>k\<leftarrow>[0..<d]. h (x ! k) (y ! k))"
proof -
  have "zip x y = map (\<lambda>k. (x ! k, y ! k)) [0..<d]"
    using assms by (intro nth_equalityI) auto
  then show ?thesis by (simp add: comp_def)
qed

lemma has_features_dot:
  "has_features S (\<lambda>i j. \<Sum>k\<leftarrow>ks. X i k * X j k)"
  by (rule has_features_sum_list) (rule has_features_rank_one)

lemma has_features_scale:
  assumes "0 \<le> a" "has_features S G"
  shows "has_features S (\<lambda>i j. a * G i j)"
  using has_features_mult [OF has_features_const [OF assms(1)] assms(2)] .

lemma has_features_poly:
  assumes "0 \<le> c" "0 \<le> d" "has_features S G"
  shows "has_features S (\<lambda>i j. (c + G i j) powi d)"
proof -
  have "has_features S (\<lambda>i j. c + G i j)"
    using has_features_add [OF has_features_const [OF assms(1)] assms(3)] .
  then have "has_features S (\<lambda>i j. (c + G i j) ^ nat d)"
    by (rule has_features_power)
  then show ?thesis using assms(2) by (simp add: power_int_def)
qed

subsection \<open>The minimum of two non-negative numbers\<close>

lemma gram_of_masked:
  "gram_of (map (\<lambda>f i. if i = m then 0 else f i) fs) i j
     = (if i = m \<or> j = m then 0 else gram_of fs i j)"
  by (induction fs) simp_all

lemma has_features_min:
  assumes "finite S" "\<forall>i\<in>S. 0 \<le> a i"
  shows "has_features S (\<lambda>i j. min (a i) (a j))"
  using assms
proof (induction "card S" arbitrary: S a)
  case 0
  then have "S = {}" by simp
  then show ?case by (simp add: has_features_def)
next
  case (Suc n)
  then have ne: "S \<noteq> {}" by auto
  define m where "m = arg_min_on a S"
  have m: "m \<in> S" and least: "\<And>i. i \<in> S \<Longrightarrow> a m \<le> a i"
    using arg_min_if_finite [OF Suc.prems(1) ne, of a] unfolding m_def
    by (auto simp: not_less)
  have am: "0 \<le> a m" using Suc.prems(2) m by blast
  define a' where "a' = (\<lambda>i. a i - a m)"
  have "n = card (S - {m})" using Suc.hyps(2) m Suc.prems(1) by simp
  moreover have "finite (S - {m})" using Suc.prems(1) by simp
  moreover have "\<forall>i\<in>S - {m}. 0 \<le> a' i" using least by (simp add: a'_def)
  ultimately have "has_features (S - {m}) (\<lambda>i j. min (a' i) (a' j))"
    by (rule Suc.hyps(1))
  then obtain fs where fs: "\<And>i j. i \<in> S \<Longrightarrow> i \<noteq> m \<Longrightarrow> j \<in> S \<Longrightarrow> j \<noteq> m \<Longrightarrow>
      min (a' i) (a' j) = gram_of fs i j"
    unfolding has_features_def by auto
  let ?gs = "(\<lambda>i. sqrt (a m)) # map (\<lambda>f i. if i = m then 0 else f i) fs"
  have "min (a i) (a j) = gram_of ?gs i j" if "i \<in> S" "j \<in> S" for i j
  proof (cases "i = m \<or> j = m")
    case True
    then have "min (a i) (a j) = a m"
      using least [of i] least [of j] that by (auto simp: min_def)
    then show ?thesis using True am by (simp add: gram_of_masked)
  next
    case False
    have "min (a i) (a j) = a m + min (a' i) (a' j)"
      by (simp add: a'_def min_def)
    also have "\<dots> = a m + gram_of fs i j"
      using fs [of i j] that False by simp
    finally show ?thesis using False am by (simp add: gram_of_masked)
  qed
  then show ?case unfolding has_features_def by blast
qed

subsection \<open>The exponential of a negated absolute difference\<close>

lemma exp_abs_diff:
  fixes g s t :: real
  assumes "0 \<le> g"
  shows "exp (- g * \<bar>s - t\<bar>) =
         (exp (- g * s) * exp (- g * t)) * min (exp (2 * g * s)) (exp (2 * g * t))"
proof (cases "s \<le> t")
  case True
  then have "g * s \<le> g * t" using assms by (simp add: mult_left_mono)
  then have "min (exp (2 * g * s)) (exp (2 * g * t)) = exp (2 * g * s)"
    by (simp add: min_def)
  moreover have "\<bar>s - t\<bar> = t - s" using True by simp
  ultimately show ?thesis
    by (simp add: algebra_simps flip: exp_add)
next
  case False
  then have "g * t \<le> g * s" using assms by (simp add: mult_left_mono)
  then have "min (exp (2 * g * s)) (exp (2 * g * t)) = exp (2 * g * t)"
    by (simp add: min_def)
  moreover have "\<bar>s - t\<bar> = s - t" using False by simp
  ultimately show ?thesis
    by (simp add: algebra_simps flip: exp_add)
qed

lemma has_features_exp_abs_diff:
  assumes "finite S" "0 \<le> g"
  shows "has_features S (\<lambda>i j. exp (- g * \<bar>s i - s j\<bar>))"
proof -
  have "has_features S (\<lambda>i j. min (exp (2 * g * s i)) (exp (2 * g * s j)))"
    by (rule has_features_min [OF assms(1)]) simp
  then have "has_features S (\<lambda>i j. (exp (- g * s i) * exp (- g * s j)) *
      min (exp (2 * g * s i)) (exp (2 * g * s j)))"
    by (rule has_features_mult [OF has_features_rank_one])
  then show ?thesis unfolding exp_abs_diff [OF assms(2)] .
qed

lemma exp_sum_list:
  fixes h :: "'a \<Rightarrow> real"
  shows "exp (- g * (\<Sum>k\<leftarrow>ks. h k)) = (\<Prod>k\<leftarrow>ks. exp (- g * h k))"
proof (induction ks)
  case Nil
  then show ?case by simp
next
  case (Cons k ks)
  have "- g * (\<Sum>k\<leftarrow>k # ks. h k) = - g * h k + - g * (\<Sum>k\<leftarrow>ks. h k)"
    by (simp add: algebra_simps)
  then have "exp (- g * (\<Sum>k\<leftarrow>k # ks. h k)) = exp (- g * h k) * exp (- g * (\<Sum>k\<leftarrow>ks. h k))"
    by (simp only: exp_add)
  then show ?case unfolding Cons.IH by simp
qed

lemma has_features_laplacian:
  assumes "finite S" "0 \<le> g"
  shows "has_features S (\<lambda>i j. exp (- g * (\<Sum>k\<leftarrow>ks. \<bar>X i k - X j k\<bar>)))"
  unfolding exp_sum_list
  by (rule has_features_prod_list) (rule has_features_exp_abs_diff [OF assms])

subsection \<open>The exponential of a matrix with features, entry by entry\<close>

lemma has_features_cong:
  assumes "\<And>i j. i \<in> S \<Longrightarrow> j \<in> S \<Longrightarrow> G i j = H i j" "has_features S H"
  shows "has_features S G"
  using assms unfolding has_features_def by auto

lemma quad_form_conj:
  "quad_form n (\<lambda>i j. u i * u j * G i j) c = quad_form n G (\<lambda>i. c i * u i)"
  by (simp add: quad_form_def mult_ac)

lemma has_features_exp_partial:
  assumes "0 \<le> t" "has_features S D"
  shows "has_features S (\<lambda>i j. \<Sum>m<N. (t * D i j) ^ m / fact m)"
proof (induction N)
  case 0
  then show ?case using has_features_const [of 0 S] by simp
next
  case (Suc N)
  have "has_features S (\<lambda>i j. (t * D i j) ^ N)"
    by (rule has_features_power) (rule has_features_scale [OF assms])
  then have "has_features S (\<lambda>i j. (1 / fact N) * (t * D i j) ^ N)"
    by (rule has_features_scale [rotated]) simp
  then have "has_features S (\<lambda>i j. (\<Sum>m<N. (t * D i j) ^ m / fact m) +
      (1 / fact N) * (t * D i j) ^ N)"
    by (rule has_features_add [OF Suc])
  then show ?case by simp
qed

lemma exp_partial_sums:
  "(\<lambda>N. \<Sum>m<N. x ^ m / fact m) \<longlonglongrightarrow> exp (x :: real)"
  using exp_converges [of x] by (simp add: sums_def divide_inverse mult.commute)

lemma quad_form_exp_nonneg:
  assumes "0 \<le> t" "has_features {..<n} D"
  shows "0 \<le> quad_form n (\<lambda>i j. exp (t * D i j)) c"
proof -
  let ?P = "\<lambda>N i j. \<Sum>m<N. (t * D i j) ^ m / fact m"
  have nonneg: "0 \<le> quad_form n (?P N) c" for N
    by (rule has_features_nonneg) (rule has_features_exp_partial [OF assms])
  have "(\<lambda>N. quad_form n (?P N) c) \<longlonglongrightarrow> quad_form n (\<lambda>i j. exp (t * D i j)) c"
    unfolding quad_form_def
    by (intro tendsto_sum tendsto_mult tendsto_const exp_partial_sums)
  then show ?thesis
    by (rule LIMSEQ_le_const) (use nonneg in blast)
qed

lemma sq_dist_expand:
  "length x = length y \<Longrightarrow>
   (\<Sum>(a, b)\<leftarrow>zip x y. (a - b :: real) ^ 2) =
   (\<Sum>a\<leftarrow>x. a ^ 2) + (\<Sum>b\<leftarrow>y. b ^ 2) - 2 * (\<Sum>(a, b)\<leftarrow>zip x y. a * b)"
  by (induction x y rule: list_induct2) (simp_all add: power2_eq_square algebra_simps)

lemma gaussian_factor:
  assumes "length x = length y"
  shows "exp (- g * (\<Sum>(a, b)\<leftarrow>zip x y. (a - b :: real) ^ 2)) =
         exp (- g * (\<Sum>a\<leftarrow>x. a ^ 2)) * exp (- g * (\<Sum>b\<leftarrow>y. b ^ 2)) *
         exp (2 * g * (\<Sum>(a, b)\<leftarrow>zip x y. a * b))"
proof -
  have "- g * (\<Sum>(a, b)\<leftarrow>zip x y. (a - b) ^ 2) =
        - g * (\<Sum>a\<leftarrow>x. a ^ 2) + - g * (\<Sum>b\<leftarrow>y. b ^ 2) + 2 * g * (\<Sum>(a, b)\<leftarrow>zip x y. a * b)"
    unfolding sq_dist_expand [OF assms] by (simp add: algebra_simps)
  then show ?thesis by (simp only: exp_add)
qed

lemma eigenvalue_nonneg:
  assumes "\<forall>c. 0 \<le> quad_form n G c" "eigenvalue n G l"
  shows "0 \<le> l"
proof -
  obtain v i where i: "i < n" "v i \<noteq> 0"
    and ev: "\<And>i. i < n \<Longrightarrow> (\<Sum>j<n. G i j * v j) = l * v i"
    using assms(2) unfolding eigenvalue_def by blast
  have "quad_form n G v = (\<Sum>i<n. v i * (\<Sum>j<n. G i j * v j))"
    by (simp add: quad_form_def sum_distrib_left mult_ac)
  also have "\<dots> = (\<Sum>i<n. v i * (l * v i))"
    by (rule sum.cong) (simp_all add: ev)
  also have "\<dots> = l * (\<Sum>i<n. (v i) ^ 2)"
    by (simp add: sum_distrib_left power2_eq_square mult_ac)
  finally have "0 \<le> l * (\<Sum>i<n. (v i) ^ 2)"
    using assms(1) by metis
  moreover have "0 < (\<Sum>i<n. (v i) ^ 2)"
    by (rule sum_pos2 [of _ i]) (use i in auto)
  ultimately show ?thesis by (simp add: zero_le_mult_iff)
qed

subsection \<open>The four kernels on samples of one length\<close>

lemma sum_list_sq_nth: "(\<Sum>a\<leftarrow>x. (a :: real) ^ 2) = (\<Sum>k\<leftarrow>[0..<length x]. (x ! k) ^ 2)"
proof -
  have "map (\<lambda>a. a ^ 2) x = map (\<lambda>k. (x ! k) ^ 2) [0..<length x]"
    by (intro nth_equalityI) auto
  then show ?thesis by simp
qed

lemma linear_quad_nonneg:
  assumes "\<And>i. i < n \<Longrightarrow> length (xs ! i) = d"
  shows "has_features {..<n} (\<lambda>i j. \<Sum>(a, b)\<leftarrow>zip (xs ! i) (xs ! j). a * b)"
proof (rule has_features_cong)
  show "has_features {..<n} (\<lambda>i j. \<Sum>k\<leftarrow>[0..<d]. xs ! i ! k * (xs ! j ! k))"
    by (rule has_features_dot)
  show "(\<Sum>(a, b)\<leftarrow>zip (xs ! i) (xs ! j). a * b) = (\<Sum>k\<leftarrow>[0..<d]. xs ! i ! k * (xs ! j ! k))"
    if "i \<in> {..<n}" "j \<in> {..<n}" for i j
    using that assms by (intro zip_sum_nth) auto
qed

lemma laplacian_features:
  assumes "\<And>i. i < n \<Longrightarrow> length (xs ! i) = d" "0 \<le> g"
  shows "has_features {..<n} (\<lambda>i j. exp (- g * (\<Sum>(a, b)\<leftarrow>zip (xs ! i) (xs ! j). \<bar>a - b\<bar>)))"
proof (rule has_features_cong)
  show "has_features {..<n} (\<lambda>i j. exp (- g * (\<Sum>k\<leftarrow>[0..<d]. \<bar>xs ! i ! k - xs ! j ! k\<bar>)))"
    by (rule has_features_laplacian) (use assms(2) in auto)
  show "exp (- g * (\<Sum>(a, b)\<leftarrow>zip (xs ! i) (xs ! j). \<bar>a - b\<bar>)) =
        exp (- g * (\<Sum>k\<leftarrow>[0..<d]. \<bar>xs ! i ! k - xs ! j ! k\<bar>))"
    if "i \<in> {..<n}" "j \<in> {..<n}" for i j
  proof -
    have "(\<Sum>(a, b)\<leftarrow>zip (xs ! i) (xs ! j). \<bar>a - b\<bar>) = (\<Sum>k\<leftarrow>[0..<d]. \<bar>xs ! i ! k - xs ! j ! k\<bar>)"
      using that assms(1) by (intro zip_sum_nth) auto
    then show ?thesis by simp
  qed
qed

lemma gaussian_quad_nonneg:
  assumes len: "\<And>i. i < n \<Longrightarrow> length (xs ! i) = d" and g: "0 \<le> g"
  shows "0 \<le> quad_form n
           (\<lambda>i j. exp (- g * (\<Sum>(a, b)\<leftarrow>zip (xs ! i) (xs ! j). (a - b) ^ 2))) c"
proof -
  let ?D = "\<lambda>i j. \<Sum>(a, b)\<leftarrow>zip (xs ! i) (xs ! j). a * b"
  let ?u = "\<lambda>i. exp (- g * (\<Sum>a\<leftarrow>xs ! i. a ^ 2))"
  have "quad_form n (\<lambda>i j. exp (- g * (\<Sum>(a, b)\<leftarrow>zip (xs ! i) (xs ! j). (a - b) ^ 2))) c
        = quad_form n (\<lambda>i j. ?u i * ?u j * exp (2 * g * ?D i j)) c"
    by (rule quad_form_cong) (rule gaussian_factor, simp add: len)
  also have "\<dots> = quad_form n (\<lambda>i j. exp (2 * g * ?D i j)) (\<lambda>i. c i * ?u i)"
    by (rule quad_form_conj)
  also have "0 \<le> \<dots>"
    by (rule quad_form_exp_nonneg) (use g linear_quad_nonneg [OF len] in auto)
  finally show ?thesis .
qed

lemma guaranteed_quad_nonneg:
  assumes k: "psd_guaranteed k" and len: "\<And>i. i < n \<Longrightarrow> length (xs ! i) = d"
  shows "\<exists>E. (\<forall>i<n. \<forall>j<n. formula k (xs ! i) (xs ! j) = Inr (E i j)) \<and>
             (\<forall>c. 0 \<le> quad_form n E c)"
proof -
  let ?D = "\<lambda>i j. \<Sum>(a, b)\<leftarrow>zip (xs ! i) (xs ! j). a * b"
  have eq: "length (xs ! i) = length (xs ! j)" if "i < n" "j < n" for i j
    using len that by simp
  have D: "has_features {..<n} ?D" by (rule linear_quad_nonneg [OF len])
  consider (lin) skip where "k = LinearKernel skip"
    | (pol) p c skip where "1 \<le> p" "0 \<le> c" "k = PolyKernel p c skip"
    | (gau) sg skip where "0 < sg" "GaussianKernel sg skip = Inr k"
    | (lap) g skip where "0 < g" "k = LaplacianKernel g skip"
    using k unfolding psd_guaranteed_def by blast
  then show ?thesis
  proof cases
    case lin
    have a: "\<forall>i<n. \<forall>j<n. formula k (xs ! i) (xs ! j) = Inr (?D i j)"
      by (simp add: lin LinearKernel_def np_dot_def len)
    have b: "\<forall>c. 0 \<le> quad_form n ?D c"
      by (intro allI has_features_nonneg D)
    show ?thesis by (intro exI [of _ ?D] conjI a b)
  next
    case pol
    let ?E = "\<lambda>i j. (c + ?D i j) powi p"
    have a: "\<forall>i<n. \<forall>j<n. formula k (xs ! i) (xs ! j) = Inr (?E i j)"
      by (simp add: pol PolyKernel_def np_dot_def len)
    have "0 \<le> p" using pol(1) by simp
    then have "has_features {..<n} ?E"
      by (intro has_features_poly pol(2) D)
    then have b: "\<forall>c. 0 \<le> quad_form n ?E c"
      by (intro allI has_features_nonneg)
    show ?thesis by (intro exI [of _ ?E] conjI a b)
  next
    case gau
    let ?g = "ensure_min_eps (1 / (2 * (ensure_min_eps sg) ^ 2))"
    let ?E = "\<lambda>i j. exp (- ?g * (\<Sum>(a, b)\<leftarrow>zip (xs ! i) (xs ! j). (a - b) ^ 2))"
    have kk: "k = Gaussian (ensure_min_eps sg) ?g skip"
      using gau(2) by (simp add: GaussianKernel_eq)
    have a: "\<forall>i<n. \<forall>j<n. formula k (xs ! i) (xs ! j) = Inr (?E i j)"
      unfolding kk by (intro allI impI formula_Gaussian eq)
    have "0 \<le> ?g" using ensure_min_eps_pos [of "1 / (2 * (ensure_min_eps sg) ^ 2)"] by simp
    then have b: "\<forall>c. 0 \<le> quad_form n ?E c"
      using gaussian_quad_nonneg [of n xs d ?g, OF len] by simp
    show ?thesis by (intro exI [of _ ?E] conjI a b)
  next
    case lap
    let ?E = "\<lambda>i j. exp (- g * (\<Sum>(a, b)\<leftarrow>zip (xs ! i) (xs ! j). \<bar>a - b\<bar>))"
    have a: "\<forall>i<n. \<forall>j<n. formula k (xs ! i) (xs ! j) = Inr (?E i j)"
      by (simp add: lap LaplacianKernel_def np_sub_eq sum_abs_sub len)
    have "0 \<le> g" using lap(1) by simp
    then have "has_features {..<n} ?E"
      using laplacian_features [of n xs d g, OF len] by simp
    then have b: "\<forall>c. 0 \<le> quad_form n ?E c"
      by (intro allI has_features_nonneg)
    show ?thesis by (intro exI [of _ ?E] conjI a b)
  qed
qed

text \<open>
  C1. For the linear kernel, the polynomial kernel with a degree of at least one and an
  intercept that is not negative, the Gaussian kernel built from a positive bandwidth and
  the Laplacian kernel with a positive scale, and for every finite list of real samples of
  one length, every evaluation on two of the samples returns a value, and the Gram matrix
  of these values is positive semidefinite: it is symmetric, its quadratic form is nowhere
  negative, and all its eigenvalues are at least zero.
\<close>

theorem gram_matrix_positive_semidefinite:
  assumes "psd_guaranteed k" and "\<forall>x\<in>set xs. length x = d"
  shows "\<exists>G. (\<forall>i<length xs. \<forall>j<length xs. gram k xs i j = Inr (G i j)) \<and>
             positive_semidefinite (length xs) G \<and>
             (\<forall>l. eigenvalue (length xs) G l \<longrightarrow> 0 \<le> l)"
proof -
  let ?n = "length xs"
  have len: "length (xs ! i) = d" if "i < ?n" for i
    using assms(2) that by simp
  obtain E where EE: "(\<forall>i<?n. \<forall>j<?n. formula k (xs ! i) (xs ! j) = Inr (E i j)) \<and>
      (\<forall>c. 0 \<le> quad_form ?n E c)"
    using guaranteed_quad_nonneg [of k ?n xs d, OF assms(1) len] ..
  then have E: "formula k (xs ! i) (xs ! j) = Inr (E i j)" if "i < ?n" "j < ?n" for i j
    using that by blast
  have nonneg: "\<forall>c. 0 \<le> quad_form ?n E c"
    using EE by (rule conjunct2)
  have "gram k xs i j = Inr (E i j)" if "i < ?n" "j < ?n" for i j
    unfolding gram_def using call_numeric [of "xs ! i" "xs ! j" k] E [OF that] len that
    by simp
  then have entries: "\<forall>i<?n. \<forall>j<?n. gram k xs i j = Inr (E i j)"
    by blast
  have "E i j = E j i" if "i < ?n" "j < ?n" for i j
  proof -
    have "formula k (xs ! i) (xs ! j) = formula k (xs ! j) (xs ! i)"
      by (rule formula_commute) (simp add: len that)
    then show ?thesis using E [OF that] E [OF that(2) that(1)] by simp
  qed
  then have sym: "\<forall>i<?n. \<forall>j<?n. E i j = E j i"
    by blast
  have psd: "positive_semidefinite ?n E"
    unfolding positive_semidefinite_def by (intro conjI sym nonneg)
  have ev: "\<forall>l. eigenvalue ?n E l \<longrightarrow> 0 \<le> l"
    using eigenvalue_nonneg [OF nonneg] by blast
  show ?thesis by (intro exI [of _ E] conjI entries psd ev)
qed

theorem gram_matrix_positive_semidefinite_witness:
  "psd_guaranteed (LaplacianKernel 1 False) \<and>
   map length [[1, 0], [0, 1 :: real]] = [2, 2] \<and>
   (\<exists>G. (\<forall>i<2. \<forall>j<2. gram (LaplacianKernel 1 False) [[1, 0], [0, 1]] i j = Inr (G i j)) \<and>
        positive_semidefinite 2 G \<and>
        (\<forall>l. eigenvalue 2 G l \<longrightarrow> 0 \<le> l))"
proof -
  have k: "psd_guaranteed (LaplacianKernel 1 False)"
    unfolding psd_guaranteed_def by (intro disjI2 exI [of _ 1] exI [of _ False]) simp
  have d: "\<forall>x\<in>set [[1, 0], [0, 1 :: real]]. length x = 2"
    by simp
  show ?thesis
    using k d gram_matrix_positive_semidefinite [OF k d] by (simp add: numeral_2_eq_2)
qed

end
